theory Spec2Isabelle
  imports Main "HOL-Library.Char_ord" "HOL-Library.List_Lexorder"
begin

section \<open>Bytes and text\<close>

text \<open>
  A \<^verbatim>\<open>std::string\<close> is a sequence of bytes: \<^typ>\<open>string\<close>. The order on strings
  is the one of \<^verbatim>\<open>std::string::operator<\<close>: lexicographic on the byte values, a
  proper prefix being smaller.
\<close>

abbreviation dquote :: char where "dquote \<equiv> CHR 0x22"
abbreviation backslash :: char where "backslash \<equiv> CHR 0x5C"
abbreviation BS :: char where "BS \<equiv> CHR 0x08"
abbreviation HT :: char where "HT \<equiv> CHR 0x09"
abbreviation LF :: char where "LF \<equiv> CHR 0x0A"
abbreviation VT :: char where "VT \<equiv> CHR 0x0B"
abbreviation FF :: char where "FF \<equiv> CHR 0x0C"
abbreviation CR :: char where "CR \<equiv> CHR 0x0D"

text \<open>
  A C++ \<^verbatim>\<open>int\<close> is modelled by \<^typ>\<open>int\<close>: the program does no arithmetic on one,
  and the one place where the 32 bits matter, the range check of \<^verbatim>\<open>std::stoi\<close>, is
  written out.
\<close>

text \<open>
  \<^verbatim>\<open>(int)c\<close> for a \<^verbatim>\<open>char c\<close>. The type \<^verbatim>\<open>char\<close> is signed on the
  platforms the server is built for: bytes from 0x80 on are negative.
\<close>

definition char_to_int :: "char \<Rightarrow> int" where
  "char_to_int c = (let n = of_char c in if n < 128 then n else n - 256)"

text \<open>\<^verbatim>\<open>std::to_string(int)\<close>: the decimal digits, most significant first, after a
  minus sign for a negative number.\<close>

definition digit_char :: "nat \<Rightarrow> char" where
  "digit_char d = ''0123456789'' ! d"

fun digits_of_nat :: "nat \<Rightarrow> string" where
  "digits_of_nat n =
     (if n < 10 then [digit_char n] else digits_of_nat (n div 10) @ [digit_char (n mod 10)])"

declare digits_of_nat.simps [simp del]

definition to_string :: "int \<Rightarrow> string" where
  "to_string i = (if i < 0 then CHR ''-'' # digits_of_nat (nat (- i)) else digits_of_nat (nat i))"

section \<open>The JSON value model\<close>

text \<open>
  \<^verbatim>\<open>std::map<std::string, T>\<close> keeps its entries in strictly ascending key order and
  is iterated in that order. It is modelled by the list of its entries in iteration
  order; \<open>is_map\<close> is the invariant every map value satisfies.
\<close>

type_synonym 'v std_map = "(string \<times> 'v) list"

definition is_map :: "'v std_map \<Rightarrow> bool" where
  "is_map m = sorted_wrt (<) (map fst m)"

text \<open>\<^verbatim>\<open>m.insert({k, v})\<close>: adds the entry at its place in the key order; a key that is
  already present keeps its old value.\<close>

fun map_insert :: "string \<Rightarrow> 'v \<Rightarrow> 'v std_map \<Rightarrow> 'v std_map" where
  "map_insert k v [] = [(k, v)]"
| "map_insert k v ((k', v') # m) =
     (if k < k' then (k, v) # (k', v') # m
      else if k = k' then (k', v') # m
      else (k', v') # map_insert k v m)"

text \<open>\<^verbatim>\<open>m[k] = v\<close>: adds the entry at its place in the key order; a key that is already
  present gets the new value.\<close>

fun map_assign :: "string \<Rightarrow> 'v \<Rightarrow> 'v std_map \<Rightarrow> 'v std_map" where
  "map_assign k v [] = [(k, v)]"
| "map_assign k v ((k', v') # m) =
     (if k < k' then (k, v) # (k', v') # m
      else if k = k' then (k, v) # m
      else (k', v') # map_assign k v m)"

text \<open>The range constructor \<^verbatim>\<open>std::map(first, last)\<close>: inserts the elements of the range
  one after the other, so of two elements with the same key the first one stays.\<close>

definition map_of_range :: "(string \<times> 'v) list \<Rightarrow> 'v std_map" where
  "map_of_range init = foldl (\<lambda>m (k, v). map_insert k v m) [] init"

text \<open>
  \<^verbatim>\<open>JSON::Value\<close>, a variant of seven shapes. The type \<open>'d\<close> stands for
  \<^verbatim>\<open>double\<close>; its decimal rendering \<^verbatim>\<open>std::to_string(double)\<close> is a parameter
  \<open>dts\<close> of the serializer.
\<close>

datatype 'd JSON =
    JNull
  | JBool bool
  | JInt int
  | JDouble 'd
  | JString string
  | JArray "'d JSON list"
  | JObject "'d JSON std_map"

definition object :: "(string \<times> 'd JSON) list \<Rightarrow> 'd JSON" where
  "object init = JObject (map_of_range init)"

definition array :: "'d JSON list \<Rightarrow> 'd JSON" where
  "array init = JArray init"

text \<open>\<^verbatim>\<open>escape_string\<close>: one step of the loop appends the rendering of one byte to
  \<open>result\<close>.\<close>

definition escape_char :: "char \<Rightarrow> string \<Rightarrow> string" where
  "escape_char c result =
     (if c = dquote then result @ [backslash, dquote]
      else if c = backslash then result @ [backslash, backslash]
      else if c = BS then result @ [backslash, CHR ''b'']
      else if c = FF then result @ [backslash, CHR ''f'']
      else if c = LF then result @ [backslash, CHR ''n'']
      else if c = CR then result @ [backslash, CHR ''r'']
      else if c = HT then result @ [backslash, CHR ''t'']
      else if 0 \<le> char_to_int c \<and> char_to_int c \<le> 31
        then result @ ([backslash, CHR ''u'']
               @ replicate (4 - length (to_string (char_to_int c))) CHR ''0'')
               @ to_string (char_to_int c)
      else result @ [c])"

definition escape_string :: "string \<Rightarrow> string" where
  "escape_string s = foldl (\<lambda>result c. escape_char c result) [] s"

text \<open>
  \<^verbatim>\<open>JSON::stringify\<close>. The two loops carry \<open>result\<close>; the array loop also carries its
  index \<open>i\<close>, the object loop its flag \<open>first\<close>.
\<close>

fun stringify :: "('d \<Rightarrow> string) \<Rightarrow> 'd JSON \<Rightarrow> string"
  and stringify_array :: "('d \<Rightarrow> string) \<Rightarrow> nat \<Rightarrow> 'd JSON list \<Rightarrow> string \<Rightarrow> string"
  and stringify_object :: "('d \<Rightarrow> string) \<Rightarrow> bool \<Rightarrow> 'd JSON std_map \<Rightarrow> string \<Rightarrow> string"
where
  "stringify dts JNull = ''null''"
| "stringify dts (JBool b) = (if b then ''true'' else ''false'')"
| "stringify dts (JInt i) = to_string i"
| "stringify dts (JDouble d) = dts d"
| "stringify dts (JString s) = [dquote] @ escape_string s @ [dquote]"
| "stringify dts (JArray arg) = stringify_array dts 0 arg ''['' @ '']''"
| "stringify dts (JObject arg) = stringify_object dts True arg ''{'' @ ''}''"
| "stringify_array dts i [] result = result"
| "stringify_array dts i (x # xs) result =
     stringify_array dts (Suc i) xs
       ((if 0 < i then result @ '','' else result) @ stringify dts x)"
| "stringify_object dts first [] result = result"
| "stringify_object dts first ((key, value) # rest) result =
     stringify_object dts False rest
       ((if \<not> first then result @ '','' else result)
          @ ([dquote] @ escape_string key @ [dquote, CHR '':'']) @ stringify dts value)"

section \<open>HTTP primitive types and message structures\<close>

datatype Method = GET | HEAD | POST | PUT | PATCH | DELETE | CONNECT | OPTIONS | TRACE | UNKNOWN

text \<open>
  \<^verbatim>\<open>enum class HttpStatus\<close> has the underlying type \<^verbatim>\<open>int\<close>, so a status is any
  \<^verbatim>\<open>int\<close>: \<^verbatim>\<open>static_cast<HttpStatus>(n)\<close> makes one from \<open>n\<close>, and
  \<^verbatim>\<open>static_cast<int>(status)\<close> is \<open>status_code\<close>. Thirteen values have names.
\<close>

datatype HttpStatus = HttpStatus (status_code: int)

abbreviation OK :: HttpStatus where "OK \<equiv> HttpStatus 200"
abbreviation CREATED :: HttpStatus where "CREATED \<equiv> HttpStatus 201"
abbreviation ACCEPTED :: HttpStatus where "ACCEPTED \<equiv> HttpStatus 202"
abbreviation NO_CONTENT :: HttpStatus where "NO_CONTENT \<equiv> HttpStatus 204"
abbreviation BAD_REQUEST :: HttpStatus where "BAD_REQUEST \<equiv> HttpStatus 400"
abbreviation UNAUTHORIZED :: HttpStatus where "UNAUTHORIZED \<equiv> HttpStatus 401"
abbreviation FORBIDDEN :: HttpStatus where "FORBIDDEN \<equiv> HttpStatus 403"
abbreviation NOT_FOUND :: HttpStatus where "NOT_FOUND \<equiv> HttpStatus 404"
abbreviation METHOD_NOT_ALLOWED :: HttpStatus where "METHOD_NOT_ALLOWED \<equiv> HttpStatus 405"
abbreviation INTERNAL_SERVER_ERROR :: HttpStatus where "INTERNAL_SERVER_ERROR \<equiv> HttpStatus 500"
abbreviation NOT_IMPLEMENTED :: HttpStatus where "NOT_IMPLEMENTED \<equiv> HttpStatus 501"
abbreviation BAD_GATEWAY :: HttpStatus where "BAD_GATEWAY \<equiv> HttpStatus 502"
abbreviation SERVICE_UNAVAILABLE :: HttpStatus where "SERVICE_UNAVAILABLE \<equiv> HttpStatus 503"

record Version =
  major :: int
  minor :: int

text \<open>
  A scalar member of a struct that is default-initialized (\<^verbatim>\<open>Request request;\<close>) has
  no value until it is assigned: \<open>Indeterminate\<close>.
\<close>

datatype 'a slot = Indeterminate | Assigned 'a

record Request =
  method_of :: "Method slot"
  uri :: string
  version :: "Version slot"
  headers :: "string std_map"
  body :: string

record Response =
  version :: Version
  status :: HttpStatus
  headers :: "string std_map"
  body :: string

definition status_message :: "Response \<Rightarrow> string" where
  "status_message r =
     (if status r = OK then ''OK''
      else if status r = CREATED then ''Created''
      else if status r = ACCEPTED then ''Accepted''
      else if status r = NO_CONTENT then ''No Content''
      else if status r = BAD_REQUEST then ''Bad Request''
      else if status r = UNAUTHORIZED then ''Unauthorized''
      else if status r = FORBIDDEN then ''Forbidden''
      else if status r = NOT_FOUND then ''Not Found''
      else if status r = METHOD_NOT_ALLOWED then ''Method Not Allowed''
      else if status r = INTERNAL_SERVER_ERROR then ''Internal Server Error''
      else if status r = NOT_IMPLEMENTED then ''Not Implemented''
      else if status r = BAD_GATEWAY then ''Bad Gateway''
      else if status r = SERVICE_UNAVAILABLE then ''Service Unavailable''
      else ''Unknown Status'')"

section \<open>Text helpers\<close>

text \<open>\<^verbatim>\<open>::isspace\<close> in the "C" locale: space, and the bytes 0x09 to 0x0D; no byte
  from 0x80 on is one.\<close>

definition isspace :: "char \<Rightarrow> bool" where
  "isspace c = (c = CHR '' '' \<or> c = HT \<or> c = LF \<or> c = VT \<or> c = FF \<or> c = CR)"

text \<open>\<^verbatim>\<open>trim\<close>: \<open>start\<close> is the position of the first byte that is no space, \<open>end\<close>
  the position after the last one.\<close>

definition trim :: "string \<Rightarrow> string" where
  "trim str =
     (let start = length (takeWhile isspace str);
          end = length str - length (takeWhile isspace (rev str))
      in if start < end then take (end - start) (drop start str) else [])"

text \<open>
  An input stream over a string is the text not yet read. \<^verbatim>\<open>std::getline\<close> fails
  when nothing is left; otherwise it takes the bytes up to the next delimiter, or up
  to the end, and drops the delimiter.
\<close>

fun getline_chars :: "string \<Rightarrow> char \<Rightarrow> string \<times> string" where
  "getline_chars [] delim = ([], [])"
| "getline_chars (c # cs) delim =
     (if c = delim then ([], cs)
      else (case getline_chars cs delim of (line, rest) \<Rightarrow> (c # line, rest)))"

definition getline :: "string \<Rightarrow> char \<Rightarrow> (string \<times> string) option" where
  "getline stream delim = (if stream = [] then None else Some (getline_chars stream delim))"

text \<open>\<^verbatim>\<open>split\<close>: the loop pushes one token for each successful \<^verbatim>\<open>getline\<close>.\<close>

function split_loop :: "string \<Rightarrow> char \<Rightarrow> string list \<Rightarrow> string list" where
  "split_loop tokenStream delim tokens =
     (case getline tokenStream delim of
        None \<Rightarrow> tokens
      | Some (token, rest) \<Rightarrow> split_loop rest delim (tokens @ [token]))"
  by pat_completeness auto
termination
proof (relation "measure (\<lambda>(s, d, ts). length s)")
  show "wf (measure (\<lambda>(s, d, ts). length s))" by simp
next
  fix tokenStream :: string and delim :: char and tokens :: "string list"
    and x2 :: "string \<times> string" and token rest :: string
  assume g: "getline tokenStream delim = Some x2" and x2: "(token, rest) = x2"
  have le: "length (snd (getline_chars s delim)) \<le> length s" for s
    by (induction s) (auto split: prod.splits)
  have lt: "length (snd (getline_chars s delim)) < length s" if "s \<noteq> []" for s
    using that le [of "tl s"] by (cases s) (auto simp: less_Suc_eq_le split: prod.splits)
  from g x2 have "tokenStream \<noteq> []" and "rest = snd (getline_chars tokenStream delim)"
    by (auto simp: getline_def split: if_splits)
  with lt show "((rest, delim, tokens @ [token]), (tokenStream, delim, tokens)) \<in> measure (\<lambda>(s, d, ts). length s)"
    by simp
qed

declare split_loop.simps [simp del]

definition split :: "string \<Rightarrow> char \<Rightarrow> string list" where
  "split str delim = split_loop str delim []"

section \<open>Conversions between methods and text\<close>

definition string_to_method :: "string \<Rightarrow> Method" where
  "string_to_method m =
     (if m = ''GET'' then GET
      else if m = ''HEAD'' then HEAD
      else if m = ''POST'' then POST
      else if m = ''PUT'' then PUT
      else if m = ''DELETE'' then DELETE
      else if m = ''CONNECT'' then CONNECT
      else if m = ''OPTIONS'' then OPTIONS
      else if m = ''TRACE'' then TRACE
      else if m = ''PATCH'' then PATCH
      else UNKNOWN)"

fun method_to_string :: "Method \<Rightarrow> string" where
  "method_to_string GET = ''GET''"
| "method_to_string HEAD = ''HEAD''"
| "method_to_string POST = ''POST''"
| "method_to_string PUT = ''PUT''"
| "method_to_string DELETE = ''DELETE''"
| "method_to_string CONNECT = ''CONNECT''"
| "method_to_string OPTIONS = ''OPTIONS''"
| "method_to_string TRACE = ''TRACE''"
| "method_to_string PATCH = ''PATCH''"
| "method_to_string _ = ''UNKNOWN''"

section \<open>The request parser\<close>

text \<open>
  What ends a call without a result: the two exceptions of the standard library that
  the parser's calls throw, and reading a \<^verbatim>\<open>std::vector\<close> with \<^verbatim>\<open>operator[]\<close>
  beyond its size, which has no defined behaviour.
\<close>

datatype error = invalid_argument | out_of_range | undefined_behaviour

definition and_then :: "error + 'a \<Rightarrow> ('a \<Rightarrow> error + 'b) \<Rightarrow> error + 'b" where
  "and_then r f = (case r of Inl e \<Rightarrow> Inl e | Inr x \<Rightarrow> f x)"

text \<open>\<^verbatim>\<open>s.substr(pos)\<close> throws when \<open>pos\<close> is beyond the size of \<open>s\<close>;
  \<^verbatim>\<open>s.substr(pos, n)\<close> likewise.\<close>

definition substr :: "string \<Rightarrow> nat \<Rightarrow> error + string" where
  "substr s pos = (if length s < pos then Inl out_of_range else Inr (drop pos s))"

definition substr_n :: "string \<Rightarrow> nat \<Rightarrow> nat \<Rightarrow> error + string" where
  "substr_n s pos n = (if length s < pos then Inl out_of_range else Inr (take n (drop pos s)))"

text \<open>\<^verbatim>\<open>v[i]\<close> on a vector.\<close>

definition vector_index :: "'a list \<Rightarrow> nat \<Rightarrow> error + 'a" where
  "vector_index v i = (if i < length v then Inr (v ! i) else Inl undefined_behaviour)"

text \<open>\<^verbatim>\<open>s.find(c)\<close>: the position of the first \<open>c\<close>, \<open>None\<close> for \<^verbatim>\<open>npos\<close>.\<close>

definition find_char :: "string \<Rightarrow> char \<Rightarrow> nat option" where
  "find_char s c = (if c \<in> set s then Some (length (takeWhile (\<lambda>x. x \<noteq> c) s)) else None)"

text \<open>
  \<^verbatim>\<open>std::stoi\<close> in base 10, through \<^verbatim>\<open>strtol\<close>: leading white space is passed
  over, one sign is accepted, then the longest run of decimal digits is the number and
  whatever follows it is ignored. No digit: \<open>invalid_argument\<close>. A number that does
  not fit an \<^verbatim>\<open>int\<close> of 32 bits: \<open>out_of_range\<close>.
\<close>

definition is_digit :: "char \<Rightarrow> bool" where
  "is_digit c = (CHR ''0'' \<le> c \<and> c \<le> CHR ''9'')"

definition digit_value :: "char \<Rightarrow> int" where
  "digit_value c = of_char c - 48"

definition decimal_value :: "string \<Rightarrow> int" where
  "decimal_value ds = foldl (\<lambda>a c. 10 * a + digit_value c) 0 ds"

definition stoi :: "string \<Rightarrow> error + int" where
  "stoi str =
     (let s = dropWhile isspace str;
          negative = (s \<noteq> [] \<and> hd s = CHR ''-'');
          t = (if s \<noteq> [] \<and> (hd s = CHR ''-'' \<or> hd s = CHR ''+'') then tl s else s);
          ds = takeWhile is_digit t;
          v = (if negative then - decimal_value ds else decimal_value ds)
      in if ds = [] then Inl invalid_argument
         else if v < - 2147483648 \<or> 2147483647 < v then Inl out_of_range
         else Inr v)"

text \<open>The request line. A line of fewer than three parts assigns nothing.\<close>

definition parse_request_line :: "string \<Rightarrow> Request \<Rightarrow> error + Request" where
  "parse_request_line line request =
     (let parts = split line CHR '' '' in
      if 3 \<le> length parts then
        and_then (substr (parts ! 2) 5) (\<lambda>v.
        let version_parts = split v CHR ''.'' in
        and_then (vector_index version_parts 0) (\<lambda>p0.
        and_then (stoi p0) (\<lambda>mj.
        and_then (vector_index version_parts 1) (\<lambda>p1.
        and_then (stoi p1) (\<lambda>mn.
        Inr (request\<lparr>method_of := Assigned (string_to_method (parts ! 0)),
                    uri := parts ! 1,
                    Request.version := Assigned \<lparr>major = mj, minor = mn\<rparr>\<rparr>))))))
      else Inr request)"

text \<open>One header line: the key is the text before the first colon, the value the text
  after it, both trimmed. A line with no colon changes nothing.\<close>

definition header_line :: "string \<Rightarrow> string std_map \<Rightarrow> error + string std_map" where
  "header_line line hs =
     (case find_char line CHR '':'' of
        None \<Rightarrow> Inr hs
      | Some colon_pos \<Rightarrow>
          and_then (substr_n line 0 colon_pos) (\<lambda>k.
          and_then (substr line (colon_pos + 1)) (\<lambda>v.
          Inr (map_assign (trim k) (trim v) hs))))"

text \<open>The header loop: it ends when \<^verbatim>\<open>getline\<close> fails or gives the line that is a
  single CR, and returns the headers with the text left in the stream.\<close>

function header_loop :: "string \<Rightarrow> string std_map \<Rightarrow> error + (string std_map \<times> string)" where
  "header_loop stream hs =
     (case getline stream LF of
        None \<Rightarrow> Inr (hs, stream)
      | Some (line, rest) \<Rightarrow>
          if line = [CR] then Inr (hs, rest)
          else (case header_line line hs of
                  Inl e \<Rightarrow> Inl e
                | Inr hs' \<Rightarrow> header_loop rest hs'))"
  by pat_completeness auto
termination
proof (relation "measure (\<lambda>(s, hs). length s)")
  show "wf (measure (\<lambda>(s, hs). length s))" by simp
next
  fix stream :: string and hs hs' :: "string std_map"
    and x2 :: "string \<times> string" and line rest :: string
  assume g: "getline stream LF = Some x2" and x2: "(line, rest) = x2"
  have le: "length (snd (getline_chars s LF)) \<le> length s" for s
    by (induction s) (auto split: prod.splits)
  have lt: "length (snd (getline_chars s LF)) < length s" if "s \<noteq> []" for s
    using that le [of "tl s"] by (cases s) (auto simp: less_Suc_eq_le split: prod.splits)
  from g x2 have "stream \<noteq> []" and "rest = snd (getline_chars stream LF)"
    by (auto simp: getline_def split: if_splits)
  with lt show "((rest, hs'), (stream, hs)) \<in> measure (\<lambda>(s, hs). length s)"
    by simp
qed

declare header_loop.simps [simp del]

text \<open>
  \<^verbatim>\<open>Request request;\<close> default-initializes the struct: the string and the map are
  empty, the enumeration and the two integers of the version are not initialized.
\<close>

definition default_init_request :: Request where
  "default_init_request =
     \<lparr>method_of = Indeterminate, uri = [], Request.version = Indeterminate,
      Request.headers = [], Request.body = []\<rparr>"

definition parse_request :: "string \<Rightarrow> error + Request" where
  "parse_request raw_request =
     (let request = default_init_request;
          (line, stream) = (case getline raw_request LF of
                              None \<Rightarrow> ([], raw_request)
                            | Some (l, rest) \<Rightarrow> (l, rest))
      in and_then (parse_request_line line request) (\<lambda>request.
         and_then (header_loop stream (Request.headers request)) (\<lambda>(hs, rest).
         Inr (request\<lparr>Request.headers := hs, Request.body := rest\<rparr>))))"

section \<open>The response writer\<close>

text \<open>\<^verbatim>\<open>construct_response\<close>: \<open>stream\<close> is the text written so far.\<close>

definition construct_response :: "Response \<Rightarrow> string" where
  "construct_response response =
     (let stream = [];
          stream = stream @ ''HTTP/'' @ to_string (major (Response.version response)) @ ''.''
                     @ to_string (minor (Response.version response)) @ '' ''
                     @ to_string (status_code (status response)) @ '' ''
                     @ status_message response @ [CR, LF];
          stream = foldl (\<lambda>stream header. stream @ fst header @ '': '' @ snd header @ [CR, LF])
                     stream (Response.headers response)
      in stream @ [CR, LF] @ Response.body response)"

text \<open>The canonical responses. The default arguments are \<open>JNull\<close> for the body and
  \<open>default_headers\<close> for the headers.\<close>

definition default_headers :: "string std_map" where
  "default_headers = map_of_range [(''Content-Type'', ''application/json'')]"

definition custom_response :: "('d \<Rightarrow> string) \<Rightarrow> HttpStatus \<Rightarrow> 'd JSON \<Rightarrow> string std_map \<Rightarrow> Response" where
  "custom_response dts st body_json hs =
     \<lparr>version = \<lparr>major = 1, minor = 1\<rparr>, status = st, headers = hs,
      body = stringify dts body_json\<rparr>"

definition HTTP_200_OK :: "('d \<Rightarrow> string) \<Rightarrow> 'd JSON \<Rightarrow> string std_map \<Rightarrow> Response" where
  "HTTP_200_OK dts body_json hs =
     \<lparr>version = \<lparr>major = 1, minor = 1\<rparr>, status = OK, headers = hs,
      body = stringify dts body_json\<rparr>"

definition HTTP_201_CREATED :: "('d \<Rightarrow> string) \<Rightarrow> 'd JSON \<Rightarrow> string std_map \<Rightarrow> Response" where
  "HTTP_201_CREATED dts body_json hs =
     \<lparr>version = \<lparr>major = 1, minor = 1\<rparr>, status = CREATED, headers = hs,
      body = stringify dts body_json\<rparr>"

definition HTTP_400_BAD_REQUEST :: "('d \<Rightarrow> string) \<Rightarrow> 'd JSON \<Rightarrow> string std_map \<Rightarrow> Response" where
  "HTTP_400_BAD_REQUEST dts body_json hs =
     \<lparr>version = \<lparr>major = 1, minor = 1\<rparr>, status = BAD_REQUEST, headers = hs,
      body = stringify dts body_json\<rparr>"

definition HTTP_500_INTERNAL_SERVER_ERROR ::
    "('d \<Rightarrow> string) \<Rightarrow> 'd JSON \<Rightarrow> string std_map \<Rightarrow> Response" where
  "HTTP_500_INTERNAL_SERVER_ERROR dts body_json hs =
     \<lparr>version = \<lparr>major = 1, minor = 1\<rparr>, status = INTERNAL_SERVER_ERROR, headers = hs,
      body = stringify dts body_json\<rparr>"

definition HTTP_404_NOT_FOUND :: "('d \<Rightarrow> string) \<Rightarrow> 'd JSON \<Rightarrow> string std_map \<Rightarrow> Response" where
  "HTTP_404_NOT_FOUND dts body_json hs =
     \<lparr>version = \<lparr>major = 1, minor = 1\<rparr>, status = NOT_FOUND, headers = hs,
      body = stringify dts body_json\<rparr>"

section \<open>The specification's wording\<close>

text \<open>
  The escaping of one byte as the specification words it: the seven named escapes, then
  \<^verbatim>\<open>\u\<close> and the decimal value in four digits for any other byte below 0x20, and
  the byte itself otherwise.
\<close>

definition decimal4 :: "nat \<Rightarrow> string" where
  "decimal4 n = [digit_char (n div 1000 mod 10), digit_char (n div 100 mod 10),
                 digit_char (n div 10 mod 10), digit_char (n mod 10)]"

definition spec_escape_byte :: "char \<Rightarrow> string" where
  "spec_escape_byte c =
     (if c = dquote then [backslash, dquote]
      else if c = backslash then [backslash, backslash]
      else if c = BS then [backslash, CHR ''b'']
      else if c = FF then [backslash, CHR ''f'']
      else if c = LF then [backslash, CHR ''n'']
      else if c = CR then [backslash, CHR ''r'']
      else if c = HT then [backslash, CHR ''t'']
      else if of_char c < (0x20 :: nat) then [backslash, CHR ''u''] @ decimal4 (of_char c)
      else [c])"

text \<open>
  The text of an array or an object between its brackets: the texts of the elements,
  or of the members, with a comma between two neighbours. A member is its key as a
  quoted, escaped string, a colon, and its value.
\<close>

fun join_comma :: "string list \<Rightarrow> string" where
  "join_comma [] = []"
| "join_comma [x] = x"
| "join_comma (x # y # xs) = x @ '','' @ join_comma (y # xs)"

definition render_member :: "('d \<Rightarrow> string) \<Rightarrow> string \<times> 'd JSON \<Rightarrow> string" where
  "render_member dts kv = [dquote] @ escape_string (fst kv) @ [dquote, CHR '':''] @ stringify dts (snd kv)"

text \<open>
  The wire text of a response in parts: the line of one header, and the status line.
\<close>

definition header_text :: "string \<times> string \<Rightarrow> string" where
  "header_text h = fst h @ '': '' @ snd h @ [CR, LF]"

definition status_line :: "Response \<Rightarrow> string" where
  "status_line r = ''HTTP/'' @ to_string (major (Response.version r)) @ ''.''
     @ to_string (minor (Response.version r)) @ '' '' @ to_string (status_code (status r))
     @ '' '' @ status_message r @ [CR, LF]"

text \<open>
  The request line of a buffer is its text up to the first LF. What the specification
  says of one header line: with a colon in it, the text before the first colon and the
  text after it, both trimmed, are stored as key and value; with no colon, nothing is
  stored.
\<close>

definition first_line :: "string \<Rightarrow> string" where
  "first_line raw = (case getline raw LF of None \<Rightarrow> [] | Some (l, rest) \<Rightarrow> l)"

definition store_header :: "string \<Rightarrow> string std_map \<Rightarrow> string std_map" where
  "store_header l hs =
     (if CHR '':'' \<in> set l
      then map_assign (trim (takeWhile (\<lambda>c. c \<noteq> CHR '':'') l))
             (trim (tl (dropWhile (\<lambda>c. c \<noteq> CHR '':'') l))) hs
      else hs)"

text \<open>A valid integer in the usual sense: decimal digits, at least one, after at most
  one sign, and nothing else.\<close>

definition spec_valid_integer :: "string \<Rightarrow> bool" where
  "spec_valid_integer s =
     (let t = (if s \<noteq> [] \<and> (hd s = CHR ''-'' \<or> hd s = CHR ''+'') then tl s else s)
      in t \<noteq> [] \<and> list_all is_digit t)"

text \<open>
  A text without the white space at its two ends, and the header mapping that a list of
  header lines denotes: each line with a colon sets the key before its first colon to
  the value after it, both stripped, a later line overwriting an earlier one.
\<close>

definition strip :: "string \<Rightarrow> string" where
  "strip s = rev (dropWhile isspace (rev (dropWhile isspace s)))"

definition header_fields :: "string list \<Rightarrow> (string \<rightharpoonup> string)" where
  "header_fields ls =
     foldl (\<lambda>f l. if CHR '':'' \<in> set l
                  then f(strip (takeWhile (\<lambda>c. c \<noteq> CHR '':'') l)
                           \<mapsto> strip (tl (dropWhile (\<lambda>c. c \<noteq> CHR '':'') l)))
                  else f)
       Map.empty ls"

text \<open>
  The tokens of the request line of a buffer, the parts of its version text (the third
  token without its first five bytes, cut at the dots), and the text at which
  \<^verbatim>\<open>std::stoi\<close> looks for digits: what follows the leading white space and one
  sign. The number read there is the value of the leading digits, with that sign.
\<close>

definition request_parts :: "string \<Rightarrow> string list" where
  "request_parts raw = split (first_line raw) CHR '' ''"

definition version_texts :: "string \<Rightarrow> string list" where
  "version_texts raw = split (drop 5 (request_parts raw ! 2)) CHR ''.''"

definition number_part :: "string \<Rightarrow> string" where
  "number_part s =
     (let t = dropWhile isspace s
      in if t \<noteq> [] \<and> (hd t = CHR ''-'' \<or> hd t = CHR ''+'') then tl t else t)"

definition number_value :: "string \<Rightarrow> int" where
  "number_value s =
     (let t = dropWhile isspace s;
          v = decimal_value (takeWhile is_digit (number_part s))
      in if t \<noteq> [] \<and> hd t = CHR ''-'' then - v else v)"

section \<open>Status codes and methods\<close>

text \<open>
  Claim C7. The reason phrase of a status whose code is none of the thirteen named ones,
  whatever integer it was made from, is the text "Unknown Status"; each of the thirteen
  named codes has its standard reason phrase.
\<close>

theorem status_message_whitelist:
  "(status_code (status r) \<notin> {200, 201, 202, 204, 400, 401, 403, 404, 405, 500, 501, 502, 503}
      \<longrightarrow> status_message r = ''Unknown Status'')
   \<and> status_message (r\<lparr>status := HttpStatus 200\<rparr>) = ''OK''
   \<and> status_message (r\<lparr>status := HttpStatus 201\<rparr>) = ''Created''
   \<and> status_message (r\<lparr>status := HttpStatus 202\<rparr>) = ''Accepted''
   \<and> status_message (r\<lparr>status := HttpStatus 204\<rparr>) = ''No Content''
   \<and> status_message (r\<lparr>status := HttpStatus 400\<rparr>) = ''Bad Request''
   \<and> status_message (r\<lparr>status := HttpStatus 401\<rparr>) = ''Unauthorized''
   \<and> status_message (r\<lparr>status := HttpStatus 403\<rparr>) = ''Forbidden''
   \<and> status_message (r\<lparr>status := HttpStatus 404\<rparr>) = ''Not Found''
   \<and> status_message (r\<lparr>status := HttpStatus 405\<rparr>) = ''Method Not Allowed''
   \<and> status_message (r\<lparr>status := HttpStatus 500\<rparr>) = ''Internal Server Error''
   \<and> status_message (r\<lparr>status := HttpStatus 501\<rparr>) = ''Not Implemented''
   \<and> status_message (r\<lparr>status := HttpStatus 502\<rparr>) = ''Bad Gateway''
   \<and> status_message (r\<lparr>status := HttpStatus 503\<rparr>) = ''Service Unavailable''"
proof -
  have "status_message r = ''Unknown Status''"
    if "status_code (status r) \<notin> {200, 201, 202, 204, 400, 401, 403, 404, 405, 500, 501, 502, 503}"
  proof (cases "status r")
    case (HttpStatus n)
    with that show ?thesis by (simp add: status_message_def)
  qed
  then show ?thesis by (simp add: status_message_def)
qed

theorem status_message_whitelist_witness:
  "status_code (status (custom_response (\<lambda>d::unit. []) (HttpStatus 418) JNull []))
      \<notin> {200, 201, 202, 204, 400, 401, 403, 404, 405, 500, 501, 502, 503}
   \<and> status_message (custom_response (\<lambda>d::unit. []) (HttpStatus 418) JNull []) = ''Unknown Status''
   \<and> status_message (custom_response (\<lambda>d::unit. []) (HttpStatus 404) JNull []) = ''Not Found''"
  using status_message_whitelist [of "custom_response (\<lambda>d::unit. []) (HttpStatus 418) JNull []"]
  by (simp add: custom_response_def)

text \<open>
  Claim C8. Reading back the text of a method gives the method, for each of the ten
  methods; \<open>UNKNOWN\<close> is written as the text "UNKNOWN". A text that is none of the nine
  verbs, compared byte by byte, reads as \<open>UNKNOWN\<close>.
\<close>

theorem string_to_method_inverse:
  "string_to_method (method_to_string m) = m
   \<and> method_to_string UNKNOWN = ''UNKNOWN''
   \<and> (s \<notin> {''GET'', ''HEAD'', ''POST'', ''PUT'', ''PATCH'', ''DELETE'', ''CONNECT'', ''OPTIONS'',
            ''TRACE''} \<longrightarrow> string_to_method s = UNKNOWN)"
  by (cases m) (simp_all add: string_to_method_def)

theorem string_to_method_inverse_witness:
  "''get'' \<notin> {''GET'', ''HEAD'', ''POST'', ''PUT'', ''PATCH'', ''DELETE'', ''CONNECT'', ''OPTIONS'',
            ''TRACE''}
   \<and> string_to_method ''get'' = UNKNOWN
   \<and> string_to_method (method_to_string PATCH) = PATCH"
  using string_to_method_inverse [of PATCH "''get''"] by simp

section \<open>Serializing strings\<close>

lemma escape_char_append: "escape_char c result = result @ escape_char c []"
  by (simp add: escape_char_def)

lemma escape_string_foldl:
  "foldl (\<lambda>result c. escape_char c result) acc s = acc @ concat (map (\<lambda>c. escape_char c []) s)"
proof (induction s arbitrary: acc)
  case Nil
  show ?case by simp
next
  case (Cons c s)
  show ?case using Cons [of "escape_char c acc"] escape_char_append [of c acc] by simp
qed

lemma escape_string_concat: "escape_string s = concat (map (\<lambda>c. escape_char c []) s)"
  by (simp add: escape_string_def escape_string_foldl)

lemma digits_of_nat_one: "n < 10 \<Longrightarrow> digits_of_nat n = [digit_char n]"
  by (simp add: digits_of_nat.simps)

lemma digits_of_nat_two:
  "10 \<le> n \<Longrightarrow> n < 100 \<Longrightarrow> digits_of_nat n = [digit_char (n div 10), digit_char (n mod 10)]"
  by (subst digits_of_nat.simps) (simp add: digits_of_nat_one)

lemma char_to_int_nat: "char_to_int c = (if (of_char c :: nat) < 128 then int (of_char c) else int (of_char c) - 256)"
proof -
  have "(of_char c :: int) = int (of_char c)" by (simp add: of_nat_of_char)
  then show ?thesis by (simp add: char_to_int_def Let_def)
qed

lemma char_to_int_small: "0 \<le> char_to_int c \<and> char_to_int c \<le> 31 \<longleftrightarrow> of_char c < (32 :: nat)"
proof -
  define n :: nat where "n = of_char c"
  have "n < 256" by (simp add: n_def)
  moreover have "char_to_int c = (if n < 128 then int n else int n - 256)"
    by (simp add: n_def char_to_int_nat)
  ultimately have "0 \<le> char_to_int c \<and> char_to_int c \<le> 31 \<longleftrightarrow> n < 32"
    by (simp split: if_splits) arith
  then show ?thesis by (simp add: n_def)
qed

lemma to_string_small:
  assumes "n < 32"
  shows "replicate (4 - length (to_string (int n))) CHR ''0'' @ to_string (int n) = decimal4 n"
proof (cases "n < 10")
  case True
  then show ?thesis
    by (simp add: to_string_def digits_of_nat_one decimal4_def digit_char_def numeral_3_eq_3)
next
  case False
  with assms have "10 \<le> n" "n < 100" by simp_all
  then show ?thesis using assms
    by (simp add: to_string_def digits_of_nat_two decimal4_def digit_char_def numeral_2_eq_2)
qed

lemma escape_char_spec: "escape_char c [] = spec_escape_byte c"
proof (cases "of_char c < (32 :: nat)")
  case True
  then have "char_to_int c = int (of_char c)" by (simp add: char_to_int_nat)
  with True show ?thesis
    using to_string_small [of "of_char c"]
    by (simp add: escape_char_def spec_escape_byte_def char_to_int_small)
next
  case False
  then show ?thesis
    by (simp add: escape_char_def spec_escape_byte_def char_to_int_small)
qed

text \<open>
  Claim C3. The serialized form of a string value is the string between two double
  quotes, each byte escaped on its own: the seven named escapes, any other byte below
  0x20 as \<^verbatim>\<open>\u\<close> and its value in decimal on four digits (0x0B gives
  \<^verbatim>\<open>\u0011\<close>), any other byte unchanged.
\<close>

theorem stringify_string_escaped:
  "stringify dts (JString s) = [dquote] @ concat (map spec_escape_byte s) @ [dquote]
   \<and> spec_escape_byte VT = [backslash, CHR ''u'', CHR ''0'', CHR ''0'', CHR ''1'', CHR ''1'']"
proof -
  have "escape_string s = concat (map spec_escape_byte s)"
    by (simp add: escape_string_concat escape_char_spec)
  moreover have "spec_escape_byte VT = [backslash, CHR ''u'', CHR ''0'', CHR ''0'', CHR ''1'', CHR ''1'']"
    by (simp add: spec_escape_byte_def decimal4_def digit_char_def)
  ultimately show ?thesis by simp
qed

theorem stringify_string_escaped_witness:
  "stringify (\<lambda>d::unit. []) (JString [CHR ''a'', dquote, VT, CHR 0xE9, LF])
     = [dquote, CHR ''a'', backslash, dquote, backslash, CHR ''u'', CHR ''0'', CHR ''0'', CHR ''1'', CHR ''1'',
        CHR 0xE9, backslash, CHR ''n'', dquote]"
  using stringify_string_escaped [of "\<lambda>d::unit. []" "[CHR ''a'', dquote, VT, CHR 0xE9, LF]"]
  by (simp add: spec_escape_byte_def decimal4_def digit_char_def)


section \<open>Serializing objects\<close>

lemma join_comma_Cons: "join_comma (x # xs) = x @ concat (map (\<lambda>s. '','' @ s) xs)"
  by (induction xs arbitrary: x) simp_all

lemma stringify_object_rest:
  "stringify_object dts False m result = result @ concat (map (\<lambda>kv. '','' @ render_member dts kv) m)"
  by (induction m arbitrary: result) (auto simp add: render_member_def)

lemma stringify_object_first:
  "stringify_object dts True m result = result @ join_comma (map (render_member dts) m)"
proof (cases m)
  case Nil
  then show ?thesis by simp
next
  case (Cons kv m')
  obtain k v where kv: "kv = (k, v)" by (cases kv)
  show ?thesis unfolding Cons kv
    by (simp add: stringify_object_rest join_comma_Cons render_member_def comp_def)
qed

lemma stringify_JObject:
  "stringify dts (JObject m) = ''{'' @ join_comma (map (render_member dts) m) @ ''}''"
  by (simp add: stringify_object_first)

text \<open>
  Claim C10. In the serialized form of an object every key is written exactly as the
  string value with the same bytes is: between double quotes, with the same escaping
  (double quote, backslash and the bytes below 0x20 included).
\<close>

theorem object_keys_escaped:
  "stringify dts (JObject m)
     = ''{'' @ join_comma (map (\<lambda>(k, v). stringify dts (JString k) @ '':'' @ stringify dts v) m) @ ''}''"
proof -
  have h: "render_member dts = (\<lambda>(k, v). stringify dts (JString k) @ '':'' @ stringify dts v)"
    by (auto simp add: render_member_def fun_eq_iff)
  show ?thesis by (subst stringify_JObject) (simp only: h)
qed

theorem object_keys_escaped_witness:
  "stringify (\<lambda>d::unit. []) (JObject [([dquote, backslash, VT], JNull)])
     = [CHR ''{'', dquote, backslash, dquote, backslash, backslash,
        backslash, CHR ''u'', CHR ''0'', CHR ''0'', CHR ''1'', CHR ''1'', dquote,
        CHR '':'', CHR ''n'', CHR ''u'', CHR ''l'', CHR ''l'', CHR ''}'']
   \<and> stringify (\<lambda>d::unit. []) (JString [dquote, backslash, VT])
     = [dquote, backslash, dquote, backslash, backslash,
        backslash, CHR ''u'', CHR ''0'', CHR ''0'', CHR ''1'', CHR ''1'', dquote]"
  using object_keys_escaped [of "\<lambda>d::unit. []" "[([dquote, backslash, VT], JNull)]"]
  by (simp add: escape_string_def escape_char_def char_to_int_def to_string_def
      digits_of_nat.simps digit_char_def numeral_2_eq_2)

section \<open>Maps and the order of the members of an object\<close>

lemma map_insert_keys: "fst ` set (map_insert k v m) = insert k (fst ` set m)"
proof (induction m)
  case Nil
  show ?case by simp
next
  case (Cons kv m)
  obtain k' v' where kv: "kv = (k', v')" by (cases kv)
  show ?case unfolding kv using Cons.IH by (simp add: insert_commute)
qed

lemma is_map_Cons: "is_map ((k, v) # m) \<longleftrightarrow> (\<forall>k' \<in> fst ` set m. k < k') \<and> is_map m"
  by (auto simp add: is_map_def)

lemma is_map_insert: "is_map m \<Longrightarrow> is_map (map_insert k v m)"
proof (induction m)
  case Nil
  show ?case by (simp add: is_map_def)
next
  case (Cons kv m)
  obtain k' v' where kv: "kv = (k', v')" by (cases kv)
  from Cons.prems have m: "is_map m" and lt: "\<forall>x \<in> fst ` set m. k' < x"
    by (simp_all add: kv is_map_Cons)
  from Cons.IH [OF m] lt m show ?case unfolding kv
    by (simp add: is_map_Cons map_insert_keys del: image_iff ball_simps) auto
qed

lemma map_of_is_map_less: "is_map ((k', v') # m) \<Longrightarrow> k < k' \<Longrightarrow> map_of m k = None"
  by (force simp add: is_map_Cons map_of_eq_None_iff)

lemma map_of_insert:
  "is_map m \<Longrightarrow> map_of (map_insert k v m) = map_of (m @ [(k, v)])"
proof (induction m)
  case Nil
  show ?case by simp
next
  case (Cons kv m)
  obtain k' v' where kv: "kv = (k', v')" by (cases kv)
  from Cons.prems have m: "is_map m" by (simp add: kv is_map_Cons)
  show ?case
  proof (cases "k < k'")
    case True
    with Cons.prems kv have "map_of m k = None" by (auto dest: map_of_is_map_less)
    then have "map_of m x = Some y \<Longrightarrow> x \<noteq> k" for x y by auto
    with True show ?thesis unfolding kv
      by (auto simp add: fun_eq_iff map_add_def split: option.splits)
  next
    case False
    with Cons.IH [OF m] show ?thesis unfolding kv
      by (auto simp add: fun_eq_iff map_add_def split: option.splits)
  qed
qed

lemma map_of_range_foldl:
  "is_map acc \<Longrightarrow>
     is_map (foldl (\<lambda>m (k, v). map_insert k v m) acc init)
     \<and> map_of (foldl (\<lambda>m (k, v). map_insert k v m) acc init) = map_of (acc @ init)"
proof (induction init arbitrary: acc)
  case Nil
  then show ?case by simp
next
  case (Cons kv init)
  obtain k v where kv: "kv = (k, v)" by (cases kv)
  from Cons.prems have i: "is_map (map_insert k v acc)" by (rule is_map_insert)
  have "map_of (map_insert k v acc @ init) = map_of (acc @ (k, v) # init)"
    using map_of_insert [OF Cons.prems, of k v]
    by (simp add: map_add_def fun_eq_iff split: option.splits)
  with Cons.IH [OF i] show ?case by (simp add: kv)
qed

lemma is_map_of_range: "is_map (map_of_range init)"
  using map_of_range_foldl [of "[]" init] by (simp add: map_of_range_def is_map_def)

lemma map_of_map_of_range: "map_of (map_of_range init) = map_of init"
  using map_of_range_foldl [of "[]" init] by (simp add: map_of_range_def is_map_def)

lemma is_map_unique:
  assumes "is_map a" "is_map b" "map_of a = map_of b"
  shows "a = b"
proof -
  from assms(1,2) have sa: "sorted (map fst a)" "distinct (map fst a)"
    and sb: "sorted (map fst b)" "distinct (map fst b)"
    by (simp_all add: is_map_def strict_sorted_iff)
  from sa(2) sb(2) assms(3) have set: "set a = set b" by (simp add: map_of_inject_set)
  from sa(2) have "inj_on fst (set a)" by (simp add: distinct_map)
  with set have "inj_on fst (set a \<union> set b)" by simp
  then show ?thesis using sa sb set by (rule map_sorted_distinct_set_unique)
qed

lemma map_of_range_reorder:
  assumes "distinct (map fst init)" "distinct (map fst init')" "set init' = set init"
  shows "map_of_range init' = map_of_range init"
proof -
  from assms have "map_of init' = map_of init" by (simp add: map_of_inject_set)
  then show ?thesis
    by (intro is_map_unique is_map_of_range) (simp add: map_of_map_of_range)
qed

text \<open>
  Claim C4. An object made from a list of pairs is serialized with its members in
  strictly ascending order of their keys, whatever the order of the list: the members
  written are those of the map built from the list, that map is sorted by key and has
  the entries of the list, and two lists with the same pairs in another order give the
  same text. The objects made from b:1, a:2 and from a:2, b:1 both give
  \<^verbatim>\<open>{"a":2,"b":1}\<close>.
\<close>

theorem stringify_object_sorted:
  "stringify dts (object init) = ''{'' @ join_comma (map (render_member dts) (map_of_range init)) @ ''}''
   \<and> sorted_wrt (<) (map fst (map_of_range init))
   \<and> map_of (map_of_range init) = map_of init
   \<and> (distinct (map fst init) \<and> distinct (map fst init') \<and> set init' = set init
        \<longrightarrow> stringify dts (object init') = stringify dts (object init))
   \<and> stringify dts (object [(''b'', JInt 1), (''a'', JInt 2)])
        = [CHR ''{'', dquote, CHR ''a'', dquote, CHR '':'', CHR ''2'', CHR '','',
           dquote, CHR ''b'', dquote, CHR '':'', CHR ''1'', CHR ''}'']
   \<and> stringify dts (object [(''a'', JInt 2), (''b'', JInt 1)])
        = [CHR ''{'', dquote, CHR ''a'', dquote, CHR '':'', CHR ''2'', CHR '','',
           dquote, CHR ''b'', dquote, CHR '':'', CHR ''1'', CHR ''}'']"
proof -
  have 1: "stringify dts (object init) = ''{'' @ join_comma (map (render_member dts) (map_of_range init)) @ ''}''"
    by (simp add: object_def stringify_object_first)
  have 2: "sorted_wrt (<) (map fst (map_of_range init))"
    using is_map_of_range [of init] by (simp add: is_map_def)
  have 3: "distinct (map fst init) \<and> distinct (map fst init') \<and> set init' = set init
        \<longrightarrow> stringify dts (object init') = stringify dts (object init)"
    using map_of_range_reorder [of init init'] by (simp add: object_def)
  have 4: "map_of_range [(''b'', JInt 1), (''a'', JInt 2)] = [(''a'', JInt 2), (''b'', JInt (1::int))]"
    by (simp add: map_of_range_def)
  have 5: "map_of_range [(''a'', JInt 2), (''b'', JInt 1)] = [(''a'', JInt 2), (''b'', JInt (1::int))]"
    by (simp add: map_of_range_def)
  have 6: "stringify dts (JObject [(''a'', JInt 2), (''b'', JInt 1)]) = [CHR ''{'', dquote, CHR ''a'', dquote, CHR '':'', CHR ''2'', CHR '','',
           dquote, CHR ''b'', dquote, CHR '':'', CHR ''1'', CHR ''}'']"
    by (simp add: escape_string_def escape_char_def to_string_def digits_of_nat.simps digit_char_def
        char_to_int_def)
  have 7: "stringify dts (object [(''b'', JInt 1), (''a'', JInt 2)])
        = [CHR ''{'', dquote, CHR ''a'', dquote, CHR '':'', CHR ''2'', CHR '','',
           dquote, CHR ''b'', dquote, CHR '':'', CHR ''1'', CHR ''}'']"
    unfolding object_def 4 by (rule 6)
  have 8: "stringify dts (object [(''a'', JInt 2), (''b'', JInt 1)])
        = [CHR ''{'', dquote, CHR ''a'', dquote, CHR '':'', CHR ''2'', CHR '','',
           dquote, CHR ''b'', dquote, CHR '':'', CHR ''1'', CHR ''}'']"
    unfolding object_def 5 by (rule 6)
  show ?thesis by (intro conjI 1 2 3 7 8 map_of_map_of_range)
qed

theorem stringify_object_sorted_witness:
  "distinct (map fst [(''b'', JInt 1 :: unit JSON), (''a'', JInt 2)])
   \<and> distinct (map fst [(''a'', JInt 2 :: unit JSON), (''b'', JInt 1)])
   \<and> set [(''a'', JInt 2 :: unit JSON), (''b'', JInt 1)] = set [(''b'', JInt 1), (''a'', JInt 2)]
   \<and> stringify (\<lambda>d::unit. []) (object [(''a'', JInt 2), (''b'', JInt 1)])
       = stringify (\<lambda>d::unit. []) (object [(''b'', JInt 1), (''a'', JInt 2)])"
  using stringify_object_sorted [of "\<lambda>d::unit. []" "[(''b'', JInt 1), (''a'', JInt 2)]"
      "[(''a'', JInt 2), (''b'', JInt 1)]"]
  by (simp add: insert_commute)


section \<open>Writing a response\<close>

lemma header_lines_foldl:
  "foldl (\<lambda>stream header. stream @ fst header @ '': '' @ snd header @ [CR, LF]) acc hs
     = acc @ concat (map header_text hs)"
  by (induction hs arbitrary: acc) (simp_all add: header_text_def)

text \<open>
  Claim C5. The text of a response is its status line (the version as
  \<^verbatim>\<open>HTTP/major.minor\<close>, the numeric status, the reason phrase, CR LF), then one
  line \<^verbatim>\<open>name: value\<close> CR LF for each header in the order of the header map, which
  is ascending in the keys, then CR LF, then the body as it is. For version 1.1, status
  404, the one header Content-Type: application/json and the body null, the text is
  the one the specification gives.
\<close>

theorem construct_response_text:
  "construct_response r
     = status_line r @ concat (map header_text (Response.headers r)) @ [CR, LF] @ Response.body r
   \<and> sorted_wrt (<) (map fst (Response.headers (r\<lparr>headers := map_of_range init\<rparr>)))
   \<and> construct_response \<lparr>version = \<lparr>major = 1, minor = 1\<rparr>, status = HttpStatus 404,
        headers = map_of_range [(''Content-Type'', ''application/json'')], body = ''null''\<rparr>
       = ''HTTP/1.1 404 Not Found'' @ [CR, LF] @ ''Content-Type: application/json''
           @ [CR, LF] @ [CR, LF] @ ''null''"
proof -
  have 1: "construct_response r
     = status_line r @ concat (map header_text (Response.headers r)) @ [CR, LF] @ Response.body r" for r
    unfolding construct_response_def Let_def header_lines_foldl by (simp add: status_line_def)
  have 2: "sorted_wrt (<) (map fst (Response.headers (r\<lparr>headers := map_of_range init\<rparr>)))"
    using is_map_of_range [of init] by (simp add: is_map_def)
  have 3: "construct_response \<lparr>version = \<lparr>major = 1, minor = 1\<rparr>, status = HttpStatus 404,
        headers = map_of_range [(''Content-Type'', ''application/json'')], body = ''null''\<rparr>
       = ''HTTP/1.1 404 Not Found'' @ [CR, LF] @ ''Content-Type: application/json''
           @ [CR, LF] @ [CR, LF] @ ''null''"
    unfolding 1
    by (simp add: status_line_def status_message_def header_text_def map_of_range_def
        to_string_def digits_of_nat.simps digit_char_def)
  show ?thesis by (intro conjI 1 2 3)
qed

theorem construct_response_text_witness:
  "construct_response \<lparr>version = \<lparr>major = 1, minor = 0\<rparr>, status = HttpStatus 299,
        headers = map_of_range [(''X-B'', ''2''), (''A'', ''1'')], body = ''hi''\<rparr>
       = ''HTTP/1.0 299 Unknown Status'' @ [CR, LF] @ ''A: 1'' @ [CR, LF] @ ''X-B: 2''
           @ [CR, LF] @ [CR, LF] @ ''hi''"
  using construct_response_text [of "\<lparr>version = \<lparr>major = 1, minor = 0\<rparr>, status = HttpStatus 299,
        headers = map_of_range [(''X-B'', ''2''), (''A'', ''1'')], body = ''hi''\<rparr>" "[]"]
  by (simp add: status_line_def status_message_def header_text_def map_of_range_def
        to_string_def digits_of_nat.simps digit_char_def)


section \<open>Reading lines and headers\<close>

lemma getline_chars_line: "d \<notin> set l \<Longrightarrow> getline_chars (l @ d # rest) d = (l, rest)"
  by (induction l) (auto split: prod.splits)

lemma getline_chars_last: "d \<notin> set l \<Longrightarrow> getline_chars l d = (l, [])"
  by (induction l) (auto split: prod.splits)

lemma getline_line: "d \<notin> set l \<Longrightarrow> getline (l @ d # rest) d = Some (l, rest)"
  by (simp add: getline_def getline_chars_line)

lemma getline_last: "d \<notin> set l \<Longrightarrow> l \<noteq> [] \<Longrightarrow> getline l d = Some (l, [])"
  by (simp add: getline_def getline_chars_last)

lemma getline_None: "getline s d = None \<longleftrightarrow> s = []"
  by (simp add: getline_def)

lemma getline_shorter: "getline s d = Some (l, rest) \<Longrightarrow> length rest < length s"
proof -
  assume g: "getline s d = Some (l, rest)"
  have le: "length (snd (getline_chars t d)) \<le> length t" for t
    by (induction t) (auto split: prod.splits)
  have lt: "length (snd (getline_chars t d)) < length t" if "t \<noteq> []" for t
    using that le [of "tl t"] by (cases t) (auto simp: less_Suc_eq_le split: prod.splits)
  from g have "s \<noteq> []" and "rest = snd (getline_chars s d)"
    by (auto simp: getline_def split: if_splits)
  with lt show ?thesis by simp
qed

lemma split_loop_acc: "split_loop s d acc = acc @ split_loop s d []"
proof (induction "length s" arbitrary: s acc rule: less_induct)
  case less
  show ?case
  proof (cases "getline s d")
    case None
    then show ?thesis by (simp add: split_loop.simps)
  next
    case (Some p)
    obtain l rest where p: "p = (l, rest)" by (cases p)
    from Some p have lt: "length rest < length s" by (simp add: getline_shorter)
    have a: "split_loop s d acc' = split_loop rest d (acc' @ [l])" for acc'
      using Some p by (subst split_loop.simps) simp
    have "split_loop rest d (acc @ [l]) = (acc @ [l]) @ split_loop rest d []"
      by (rule less [OF lt])
    moreover have "split_loop rest d ([] @ [l]) = ([] @ [l]) @ split_loop rest d []"
      by (rule less [OF lt])
    ultimately show ?thesis by (simp add: a)
  qed
qed

lemma split_unfold:
  "split s d = (case getline s d of None \<Rightarrow> [] | Some (l, rest) \<Rightarrow> l # split rest d)"
proof (cases "getline s d")
  case None
  then show ?thesis by (simp add: split_def split_loop.simps)
next
  case (Some p)
  obtain l rest where p: "p = (l, rest)" by (cases p)
  have "split s d = split_loop rest d ([] @ [l])"
    unfolding split_def using Some p by (subst split_loop.simps) simp
  also have "\<dots> = [l] @ split rest d"
    unfolding split_def by (subst split_loop_acc) simp
  finally show ?thesis using Some p by simp
qed

lemma split_Nil: "split [] d = []"
  by (subst split_unfold) (simp add: getline_def)

lemma header_line_total: "header_line l hs = Inr (store_header l hs)"
proof (cases "CHR '':'' \<in> set l")
  case False
  then show ?thesis by (simp add: header_line_def find_char_def store_header_def)
next
  case True
  define p where "p = length (takeWhile (\<lambda>c. c \<noteq> CHR '':'') l)"
  have split: "l = takeWhile (\<lambda>c. c \<noteq> CHR '':'') l @ dropWhile (\<lambda>c. c \<noteq> CHR '':'') l"
    by simp
  from True have ne: "dropWhile (\<lambda>c. c \<noteq> CHR '':'') l \<noteq> []"
    by (simp add: dropWhile_eq_Nil_conv)
  have len: "length l = p + length (dropWhile (\<lambda>c. c \<noteq> CHR '':'') l)"
    unfolding p_def by (metis split length_append)
  with ne have lt: "p < length l" by (cases "dropWhile (\<lambda>c. c \<noteq> CHR '':'') l") simp_all
  have tk: "take p l = takeWhile (\<lambda>c. c \<noteq> CHR '':'') l"
    unfolding p_def by (metis split append_eq_conv_conj)
  have dr: "drop p l = dropWhile (\<lambda>c. c \<noteq> CHR '':'') l"
    unfolding p_def by (metis split append_eq_conv_conj)
  have dr1: "drop (Suc p) l = tl (dropWhile (\<lambda>c. c \<noteq> CHR '':'') l)"
    using dr by (metis drop_Suc tl_drop)
  from True have f: "find_char l CHR '':'' = Some p" by (simp add: find_char_def p_def)
  show ?thesis
    using lt True
    by (simp add: header_line_def f substr_n_def substr_def and_then_def store_header_def tk dr1)
qed

lemma header_loop_unfold:
  "header_loop s hs =
     (case getline s LF of
        None \<Rightarrow> Inr (hs, s)
      | Some (line, rest) \<Rightarrow>
          if line = [CR] then Inr (hs, rest) else header_loop rest (store_header line hs))"
  by (subst header_loop.simps) (simp add: header_line_total split: option.splits)

lemma header_loop_Nil: "header_loop [] hs = Inr (hs, [])"
  by (subst header_loop_unfold) (simp add: getline_def)

lemma header_loop_lines:
  assumes "\<forall>l \<in> set ls. LF \<notin> set l \<and> l \<noteq> [CR]"
    and "getline terminator LF = Some ([CR], rest)"
  shows "header_loop (concat (map (\<lambda>l. l @ [LF]) ls) @ terminator) hs
           = Inr (foldl (\<lambda>hs l. store_header l hs) hs ls, rest)"
  using assms(1)
proof (induction ls arbitrary: hs)
  case Nil
  from assms(2) show ?case by (subst header_loop_unfold) simp
next
  case (Cons l ls)
  then have l: "LF \<notin> set l" "l \<noteq> [CR]" by simp_all
  have "getline (l @ LF # concat (map (\<lambda>l. l @ [LF]) ls) @ terminator) LF
          = Some (l, concat (map (\<lambda>l. l @ [LF]) ls) @ terminator)"
    using l(1) by (rule getline_line)
  then have "header_loop (concat (map (\<lambda>l. l @ [LF]) (l # ls)) @ terminator) hs
          = header_loop (concat (map (\<lambda>l. l @ [LF]) ls) @ terminator) (store_header l hs)"
    using l(2) by (subst header_loop_unfold) simp
  also have "\<dots> = Inr (foldl (\<lambda>hs l. store_header l hs) (store_header l hs) ls, rest)"
    using Cons.prems by (intro Cons.IH) simp
  finally show ?case by simp
qed

lemma header_loop_no_terminator:
  "[CR] \<notin> set (split s LF) \<Longrightarrow>
     header_loop s hs = Inr (foldl (\<lambda>hs l. store_header l hs) hs (split s LF), [])"
proof (induction "length s" arbitrary: s hs rule: less_induct)
  case less
  show ?case
  proof (cases "getline s LF")
    case None
    then have "s = []" by (simp add: getline_None)
    then show ?thesis by (simp add: header_loop_Nil split_Nil)
  next
    case (Some p)
    obtain l rest where p: "p = (l, rest)" by (cases p)
    from Some p have lt: "length rest < length s" by (simp add: getline_shorter)
    from Some p have sp: "split s LF = l # split rest LF"
      by (subst split_unfold) simp
    with less.prems have l: "l \<noteq> [CR]" and r: "[CR] \<notin> set (split rest LF)" by auto
    have "header_loop s hs = header_loop rest (store_header l hs)"
      using Some p l by (subst header_loop_unfold) simp
    also have "\<dots> = Inr (foldl (\<lambda>hs l. store_header l hs) (store_header l hs) (split rest LF), [])"
      using lt r by (rule less.hyps)
    finally show ?thesis by (simp add: sp)
  qed
qed

lemma parse_request_line_keeps:
  "parse_request_line l default_init_request = Inr req \<Longrightarrow>
     Request.headers req = [] \<and> Request.body req = []"
  by (auto simp add: parse_request_line_def default_init_request_def and_then_def Let_def
      split: if_splits sum.splits)

lemma parse_request_phases:
  "parse_request raw =
     and_then (parse_request_line (first_line raw) default_init_request) (\<lambda>req.
     and_then (header_loop (case getline raw LF of None \<Rightarrow> raw | Some (l, rest) \<Rightarrow> rest) [])
       (\<lambda>(hs, rest). Inr (req\<lparr>Request.headers := hs, Request.body := rest\<rparr>)))"
proof (cases "parse_request_line (first_line raw) default_init_request")
  case (Inl e)
  then show ?thesis
    by (auto simp add: parse_request_def first_line_def and_then_def Let_def split: option.splits)
next
  case (Inr req)
  then have "Request.headers req = []" by (simp add: parse_request_line_keeps)
  with Inr show ?thesis
    by (auto simp add: parse_request_def first_line_def and_then_def Let_def split: option.splits)
qed


section \<open>Parsing the headers and the body\<close>

lemma map_assign_keys: "fst ` set (map_assign k v m) = insert k (fst ` set m)"
proof (induction m)
  case Nil
  show ?case by simp
next
  case (Cons kv m)
  obtain k' v' where kv: "kv = (k', v')" by (cases kv)
  show ?case unfolding kv using Cons.IH by (simp add: insert_commute)
qed

lemma is_map_assign: "is_map m \<Longrightarrow> is_map (map_assign k v m)"
proof (induction m)
  case Nil
  show ?case by (simp add: is_map_def)
next
  case (Cons kv m)
  obtain k' v' where kv: "kv = (k', v')" by (cases kv)
  from Cons.prems have m: "is_map m" and lt: "\<forall>x \<in> fst ` set m. k' < x"
    by (simp_all add: kv is_map_Cons)
  from Cons.IH [OF m] lt m show ?case unfolding kv
    by (simp add: is_map_Cons map_assign_keys del: image_iff ball_simps) auto
qed

lemma map_of_assign: "map_of (map_assign k v m) = (map_of m)(k \<mapsto> v)"
proof (induction m)
  case Nil
  show ?case by simp
next
  case (Cons kv m)
  obtain k' v' where kv: "kv = (k', v')" by (cases kv)
  show ?case unfolding kv using Cons.IH by (auto simp add: fun_eq_iff)
qed

lemma is_map_store_header: "is_map hs \<Longrightarrow> is_map (store_header l hs)"
  by (simp add: store_header_def is_map_assign)

lemma is_map_store_headers: "is_map hs \<Longrightarrow> is_map (foldl (\<lambda>hs l. store_header l hs) hs ls)"
  by (induction ls arbitrary: hs) (simp_all add: is_map_store_header)

lemma trim_strip: "trim s = rev (dropWhile isspace (rev (dropWhile isspace s)))"
proof -
  define a where "a = takeWhile isspace s"
  define b where "b = dropWhile isspace s"
  have s: "s = a @ b" by (simp add: a_def b_def)
  show ?thesis
  proof (cases "b = []")
    case True
    then have all: "\<forall>c \<in> set s. isspace c" by (simp add: b_def dropWhile_eq_Nil_conv)
    have "takeWhile isspace (rev s) = rev s"
      by (rule takeWhile_eq_all_conv [THEN iffD2]) (use all in simp)
    then have "length s - length (takeWhile isspace (rev s)) = 0" by (simp only: length_rev diff_self_eq_0)
    then have e: "trim s = []" by (simp add: trim_def Let_def)
    from True have d: "dropWhile isspace s = []" by (simp only: b_def)
    show ?thesis unfolding e d by simp
  next
    case False
    then have hb: "\<not> isspace (hd b)" unfolding b_def by (rule hd_dropWhile)
    from False have hbm: "hd b \<in> set (rev b)" by simp
    define t where "t = takeWhile isspace (rev b)"
    have tw: "takeWhile isspace (rev s) = t"
      unfolding s t_def using hb hbm by (simp add: takeWhile_append1 [of "hd b"])
    have "t \<noteq> rev b" unfolding t_def using hb hbm
      by (metis set_takeWhileD)
    moreover have "length t \<le> length (rev b)" unfolding t_def by (rule length_takeWhile_le)
    moreover have "length t = length (rev b) \<Longrightarrow> t = rev b"
      unfolding t_def by (metis takeWhile_eq_take take_all le_refl)
    ultimately have lt: "length t < length b" by (cases "length t = length (rev b)") auto
    have la: "length (takeWhile isspace s) = length a" by (simp add: a_def)
    have st: "length a < length s - length t" using lt unfolding s by simp
    have df: "length s - length t - length a = length b - length t" unfolding s by simp
    have db: "drop (length a) s = b" unfolding s by simp
    have "trim s = take (length b - length t) b"
      unfolding trim_def Let_def tw la using st by (simp only: if_True df db)
    also have "\<dots> = rev (drop (length t) (rev b))"
      by (simp add: rev_take [symmetric] rev_drop)
    also have "drop (length t) (rev b) = dropWhile isspace (rev b)"
      unfolding t_def by (simp add: dropWhile_eq_drop)
    finally show ?thesis by (simp add: b_def)
  qed
qed

lemma map_of_store_headers:
  "map_of (foldl (\<lambda>hs l. store_header l hs) hs ls)
     = foldl (\<lambda>f l. if CHR '':'' \<in> set l
                  then f(strip (takeWhile (\<lambda>c. c \<noteq> CHR '':'') l)
                           \<mapsto> strip (tl (dropWhile (\<lambda>c. c \<noteq> CHR '':'') l)))
                  else f)
         (map_of hs) ls"
proof (induction ls arbitrary: hs)
  case Nil
  show ?case by simp
next
  case (Cons l ls)
  have "map_of (store_header l hs)
          = (if CHR '':'' \<in> set l
             then (map_of hs)(strip (takeWhile (\<lambda>c. c \<noteq> CHR '':'') l)
                           \<mapsto> strip (tl (dropWhile (\<lambda>c. c \<noteq> CHR '':'') l)))
             else map_of hs)"
    by (simp add: store_header_def map_of_assign trim_strip strip_def)
  with Cons [of "store_header l hs"] show ?case by simp
qed

lemma map_of_store_headers_Nil:
  "map_of (foldl (\<lambda>hs l. store_header l hs) [] ls) = header_fields ls"
  using map_of_store_headers [of "[]" ls] by (simp add: header_fields_def)

text \<open>
  Claim C6. In a buffer made of a request line, header lines none of which is the
  single CR, the line that is the single CR (with a rest after its LF, or at the very
  end of the buffer), the parser handles the header lines in turn: a line with a colon stores the trimmed text before its first colon with
  the trimmed text after it, a later line with the same key overwriting the earlier
  one; a line with no colon stores nothing and is no error. The rest after the
  terminator line is the body, byte for byte. The only error is the one of the request
  line.
\<close>

theorem parse_request_headers:
  assumes "LF \<notin> set first" and "\<forall>l \<in> set ls. LF \<notin> set l \<and> l \<noteq> [CR]"
    and "terminator = [CR, LF] @ rest \<or> terminator = [CR] \<and> rest = []"
  shows "parse_request (first @ [LF] @ concat (map (\<lambda>l. l @ [LF]) ls) @ terminator)
           = and_then (parse_request_line first default_init_request)
               (\<lambda>req. Inr (req\<lparr>Request.headers := foldl (\<lambda>hs l. store_header l hs) [] ls,
                               Request.body := rest\<rparr>))
         \<and> is_map (foldl (\<lambda>hs l. store_header l hs) [] ls)
         \<and> map_of (foldl (\<lambda>hs l. store_header l hs) [] ls) = header_fields ls"
proof -
  let ?stream = "concat (map (\<lambda>l. l @ [LF]) ls) @ terminator"
  let ?raw = "first @ [LF] @ ?stream"
  have g: "getline ?raw LF = Some (first, ?stream)"
    using getline_line [OF assms(1)] by simp
  then have f: "first_line ?raw = first" by (simp add: first_line_def)
  from assms(3) have t: "getline terminator LF = Some ([CR], rest)"
  proof
    assume "terminator = [CR, LF] @ rest"
    then show ?thesis using getline_line [of LF "[CR]" rest] by simp
  next
    assume "terminator = [CR] \<and> rest = []"
    then show ?thesis using getline_last [of LF "[CR]"] by simp
  qed
  have "parse_request ?raw
          = and_then (parse_request_line first default_init_request)
               (\<lambda>req. Inr (req\<lparr>Request.headers := foldl (\<lambda>hs l. store_header l hs) [] ls,
                               Request.body := rest\<rparr>))"
    by (subst parse_request_phases)
      (simp only: f g option.case prod.case header_loop_lines [OF assms(2) t] and_then_def sum.case)
  moreover have "is_map (foldl (\<lambda>hs l. store_header l hs) [] ls)"
    by (rule is_map_store_headers) (simp add: is_map_def)
  ultimately show ?thesis by (simp only: map_of_store_headers_Nil simp_thms)
qed

text \<open>
  Claim C9, amended. In a buffer with no line that is the single CR after the request
  line, every line after the request line is handled as a header line up to the end of
  the buffer and the body is empty; the parser throws exactly when the request line
  throws.
\<close>

theorem parse_request_no_terminator:
  assumes "[CR] \<notin> set (tl (split raw LF))"
  shows "parse_request raw
           = and_then (parse_request_line (first_line raw) default_init_request)
               (\<lambda>req. Inr (req\<lparr>Request.headers
                                 := foldl (\<lambda>hs l. store_header l hs) [] (tl (split raw LF)),
                               Request.body := []\<rparr>))
         \<and> map_of (foldl (\<lambda>hs l. store_header l hs) [] (tl (split raw LF)))
             = header_fields (tl (split raw LF))
         \<and> ((\<exists>e. parse_request raw = Inl e)
              \<longleftrightarrow> (\<exists>e. parse_request_line (first_line raw) default_init_request = Inl e))"
proof -
  define stream where "stream = (case getline raw LF of None \<Rightarrow> raw | Some (l, rest) \<Rightarrow> rest)"
  have tl: "tl (split raw LF) = split stream LF"
  proof (cases "getline raw LF")
    case None
    then have "raw = []" by (simp add: getline_None)
    then show ?thesis by (simp add: stream_def getline_def split_Nil)
  next
    case (Some p)
    then show ?thesis by (subst split_unfold) (auto simp add: stream_def split: prod.splits)
  qed
  with assms have "[CR] \<notin> set (split stream LF)" by simp
  then have hl: "header_loop stream [] = Inr (foldl (\<lambda>hs l. store_header l hs) [] (split stream LF), [])"
    by (rule header_loop_no_terminator)
  have 1: "parse_request raw
           = and_then (parse_request_line (first_line raw) default_init_request)
               (\<lambda>req. Inr (req\<lparr>Request.headers
                                 := foldl (\<lambda>hs l. store_header l hs) [] (tl (split raw LF)),
                               Request.body := []\<rparr>))"
    by (subst parse_request_phases)
      (simp only: stream_def [symmetric] hl tl and_then_def sum.case prod.case)
  have 2: "(\<exists>e. parse_request raw = Inl e)
              \<longleftrightarrow> (\<exists>e. parse_request_line (first_line raw) default_init_request = Inl e)"
    unfolding 1 by (simp add: and_then_def split: sum.splits)
  show ?thesis using 1 2 by (simp only: map_of_store_headers_Nil simp_thms)
qed

theorem parse_request_headers_witness:
  "LF \<notin> set (''GET /hello HTTP/1.1'' @ [CR])
   \<and> LF \<notin> set (''Host: localhost'' @ [CR]) \<and> ''Host: localhost'' @ [CR] \<noteq> [CR]
   \<and> LF \<notin> set (''junk'' @ [CR]) \<and> ''junk'' @ [CR] \<noteq> [CR]
   \<and> LF \<notin> set (''Host : b '' @ [CR]) \<and> ''Host : b '' @ [CR] \<noteq> [CR]
   \<and> parse_request ((''GET /hello HTTP/1.1'' @ [CR]) @ [LF]
         @ concat (map (\<lambda>l. l @ [LF]) [''Host: localhost'' @ [CR], ''junk'' @ [CR], ''Host : b '' @ [CR]])
         @ [CR, LF] @ ''hi'')
       = Inr \<lparr>method_of = Assigned GET, uri = ''/hello'',
               Request.version = Assigned \<lparr>major = 1, minor = 1\<rparr>,
               Request.headers = [(''Host'', ''b'')], Request.body = ''hi''\<rparr>"
proof -
  have h1: "LF \<notin> set (''GET /hello HTTP/1.1'' @ [CR])" by simp
  have h2: "\<forall>l \<in> set [''Host: localhost'' @ [CR], ''junk'' @ [CR], ''Host : b '' @ [CR]].
         LF \<notin> set l \<and> l \<noteq> [CR]" by simp
  have rl: "parse_request_line (''GET /hello HTTP/1.1'' @ [CR]) default_init_request
     = Inr \<lparr>method_of = Assigned GET, uri = ''/hello'',
               Request.version = Assigned \<lparr>major = 1, minor = 1\<rparr>,
               Request.headers = [], Request.body = []\<rparr>"
    by code_simp
  have st: "foldl (\<lambda>hs l. store_header l hs) []
              [''Host: localhost'' @ [CR], ''junk'' @ [CR], ''Host : b '' @ [CR]] = [(''Host'', ''b'')]"
    by code_simp
  have h3: "[CR, LF] @ ''hi'' = [CR, LF] @ ''hi'' \<or> [CR, LF] @ ''hi'' = [CR] \<and> ''hi'' = []"
    by simp
  show ?thesis using parse_request_headers [OF h1 h2 h3] h1 h2
    by (simp only: rl st and_then_def sum.case) simp
qed

text \<open>
  Claim C9 as stated fails: this buffer has no terminator line, and the parser throws
  on its request line.
\<close>

theorem parse_request_no_terminator_counterexample:
  "[CR] \<notin> set (tl (split (''GET / HTTP/x.y'' @ [CR, LF] @ ''Host: a'') LF))
   \<and> parse_request (''GET / HTTP/x.y'' @ [CR, LF] @ ''Host: a'') = Inl invalid_argument"
  by code_simp

theorem parse_request_no_terminator_witness:
  "[CR] \<notin> set (tl (split (''GET / HTTP/1.1'' @ [CR, LF] @ ''Host: a'' @ [CR, LF] @ ''X: y'') LF))
   \<and> parse_request (''GET / HTTP/1.1'' @ [CR, LF] @ ''Host: a'' @ [CR, LF] @ ''X: y'')
       = Inr \<lparr>method_of = Assigned GET, uri = ''/'',
               Request.version = Assigned \<lparr>major = 1, minor = 1\<rparr>,
               Request.headers = [(''Host'', ''a''), (''X'', ''y'')], Request.body = []\<rparr>"
proof -
  have sp: "split (''GET / HTTP/1.1'' @ [CR, LF] @ ''Host: a'' @ [CR, LF] @ ''X: y'') LF
     = [''GET / HTTP/1.1'' @ [CR], ''Host: a'' @ [CR], ''X: y'']"
    by code_simp
  have h: "[CR] \<notin> set (tl (split (''GET / HTTP/1.1'' @ [CR, LF] @ ''Host: a'' @ [CR, LF] @ ''X: y'') LF))"
    unfolding sp by simp
  have fl: "first_line (''GET / HTTP/1.1'' @ [CR, LF] @ ''Host: a'' @ [CR, LF] @ ''X: y'')
     = ''GET / HTTP/1.1'' @ [CR]"
    by code_simp
  have rl: "parse_request_line (''GET / HTTP/1.1'' @ [CR]) default_init_request
     = Inr \<lparr>method_of = Assigned GET, uri = ''/'',
               Request.version = Assigned \<lparr>major = 1, minor = 1\<rparr>,
               Request.headers = [], Request.body = []\<rparr>"
    by code_simp
  have st: "foldl (\<lambda>hs l. store_header l hs) [] [''Host: a'' @ [CR], ''X: y'']
              = [(''Host'', ''a''), (''X'', ''y'')]"
    by code_simp
  show ?thesis using parse_request_no_terminator [OF h] h
    by (simp only: sp fl rl st and_then_def sum.case list.sel) simp
qed


section \<open>Parsing the request line\<close>

lemma header_loop_total: "\<exists>hs' rest. header_loop s hs = Inr (hs', rest)"
proof (induction "length s" arbitrary: s hs rule: less_induct)
  case less
  show ?case
  proof (cases "getline s LF")
    case None
    then show ?thesis by (subst header_loop_unfold) simp
  next
    case (Some p)
    obtain l rest where p: "p = (l, rest)" by (cases p)
    from Some p have lt: "length rest < length s" by (simp add: getline_shorter)
    from less [OF lt, of "store_header l hs"] Some p show ?thesis
      by (subst header_loop_unfold) simp
  qed
qed

lemma parse_request_error_iff:
  "parse_request raw = Inl e \<longleftrightarrow> parse_request_line (first_line raw) default_init_request = Inl e"
proof -
  obtain hs' rest where
    "header_loop (case getline raw LF of None \<Rightarrow> raw | Some (l, rest) \<Rightarrow> rest) [] = Inr (hs', rest)"
    using header_loop_total by blast
  then show ?thesis
    by (subst parse_request_phases) (simp add: and_then_def split: sum.splits)
qed

lemma parse_request_line_short:
  "length (split l CHR '' '') < 3 \<Longrightarrow> parse_request_line l req = Inr req"
  by (simp add: parse_request_line_def Let_def)

lemma stoi_range:
  "stoi s = Inl out_of_range \<longleftrightarrow>
     number_part s \<noteq> [] \<and> is_digit (hd (number_part s))
     \<and> (number_value s < - 2147483648 \<or> 2147483647 < number_value s)"
proof -
  have "takeWhile is_digit t = [] \<longleftrightarrow> (t = [] \<or> \<not> is_digit (hd t))" for t
    by (cases t) simp_all
  then show ?thesis
    by (auto simp add: stoi_def number_part_def number_value_def Let_def)
qed

lemma stoi_invalid:
  "stoi s = Inl invalid_argument \<longleftrightarrow> (number_part s = [] \<or> \<not> is_digit (hd (number_part s)))"
proof -
  have "takeWhile is_digit t = [] \<longleftrightarrow> (t = [] \<or> \<not> is_digit (hd t))" for t
    by (cases t) simp_all
  then show ?thesis by (simp add: stoi_def number_part_def Let_def)
qed

text \<open>
  Claim C1, amended. A request line of fewer than three tokens never makes the parser
  throw. With three or more tokens, a third token of fewer than five bytes throws
  \<open>out_of_range\<close>; a third token with a major and a minor part throws exactly the
  error of \<^verbatim>\<open>std::stoi\<close> on the major part or, that one converted, on the minor
  part. The conversion throws \<open>invalid_argument\<close> exactly when no decimal digit
  follows the leading white space and sign, \<open>out_of_range\<close> exactly when the number
  read does not fit 32 bits, and it ignores what follows the digits.
  Nothing is said of a third token that has no minor part.
\<close>

theorem parse_request_throws:
  "(length (request_parts raw) < 3 \<longrightarrow> (\<exists>r. parse_request raw = Inr r))
   \<and> (3 \<le> length (request_parts raw) \<and> length (request_parts raw ! 2) < 5
        \<longrightarrow> parse_request raw = Inl out_of_range)
   \<and> (3 \<le> length (request_parts raw) \<and> 5 \<le> length (request_parts raw ! 2)
         \<and> 2 \<le> length (version_texts raw)
        \<longrightarrow> (parse_request raw = Inl e
               \<longleftrightarrow> stoi (version_texts raw ! 0) = Inl e
                   \<or> (\<exists>mj. stoi (version_texts raw ! 0) = Inr mj) \<and> stoi (version_texts raw ! 1) = Inl e))
   \<and> (stoi s = Inl invalid_argument \<longleftrightarrow> number_part s = [] \<or> \<not> is_digit (hd (number_part s)))
   \<and> (stoi s = Inl out_of_range \<longleftrightarrow>
         number_part s \<noteq> [] \<and> is_digit (hd (number_part s))
         \<and> (number_value s < - 2147483648 \<or> 2147483647 < number_value s))
   \<and> (is_digit d \<and> \<not> is_digit c \<longrightarrow> stoi (d # c # junk) = Inr (digit_value d))"
proof -
  have 1: "\<exists>r. parse_request raw = Inr r" if "length (request_parts raw) < 3"
  proof -
    from that have "parse_request_line (first_line raw) default_init_request = Inr default_init_request"
      by (simp add: request_parts_def parse_request_line_short)
    then have "\<not> (\<exists>e. parse_request raw = Inl e)" by (simp add: parse_request_error_iff)
    then show ?thesis by (cases "parse_request raw") auto
  qed
  have 2: "parse_request raw = Inl out_of_range"
    if "3 \<le> length (request_parts raw) \<and> length (request_parts raw ! 2) < 5"
    using that unfolding parse_request_error_iff
    by (simp add: parse_request_line_def Let_def request_parts_def [symmetric] substr_def and_then_def)
  have 3: "parse_request raw = Inl e
               \<longleftrightarrow> stoi (version_texts raw ! 0) = Inl e
                   \<or> (\<exists>mj. stoi (version_texts raw ! 0) = Inr mj) \<and> stoi (version_texts raw ! 1) = Inl e"
    if "3 \<le> length (request_parts raw) \<and> 5 \<le> length (request_parts raw ! 2)
         \<and> 2 \<le> length (version_texts raw)"
  proof -
    from that have s: "substr (request_parts raw ! 2) 5 = Inr (drop 5 (request_parts raw ! 2))"
      by (simp add: substr_def)
    from that have v: "vector_index (version_texts raw) 0 = Inr (version_texts raw ! 0)"
      "vector_index (version_texts raw) (Suc 0) = Inr (version_texts raw ! Suc 0)"
      by (auto simp add: vector_index_def)
    show ?thesis unfolding parse_request_error_iff using that
      by (simp add: parse_request_line_def Let_def request_parts_def [symmetric] s
          version_texts_def [symmetric] v and_then_def split: sum.splits)
  qed
  have 4: "stoi (d # c # junk) = Inr (digit_value d)" if "is_digit d \<and> \<not> is_digit c"
  proof -
    from that have n: "48 \<le> (of_char d :: nat)" "(of_char d :: nat) \<le> 57"
      by (simp_all add: is_digit_def less_eq_char_def)
    then have "\<not> isspace d" "d \<noteq> CHR ''-''" "d \<noteq> CHR ''+''"
      by (auto simp add: isspace_def)
    moreover have "(of_char d :: int) = int (of_char d)" by (simp add: of_nat_of_char)
    with n have "0 \<le> digit_value d" "digit_value d \<le> 9"
      by (simp_all add: digit_value_def)
    ultimately show ?thesis using that
      by (simp add: stoi_def Let_def decimal_value_def)
  qed
  show ?thesis using 1 2 3 4 stoi_invalid [of s] stoi_range [of s] by blast
qed

theorem parse_request_throws_witness:
  "length (request_parts (''BADLINE'' @ [CR, LF, CR, LF])) < 3
   \<and> (\<exists>r. parse_request (''BADLINE'' @ [CR, LF, CR, LF]) = Inr r)
   \<and> 3 \<le> length (request_parts (''GET / H'' @ [CR, LF, CR, LF]))
   \<and> length (request_parts (''GET / H'' @ [CR, LF, CR, LF]) ! 2) < 5
   \<and> parse_request (''GET / H'' @ [CR, LF, CR, LF]) = Inl out_of_range
   \<and> 3 \<le> length (request_parts (''GET / HTTP/x.y'' @ [CR, LF, CR, LF]))
   \<and> 5 \<le> length (request_parts (''GET / HTTP/x.y'' @ [CR, LF, CR, LF]) ! 2)
   \<and> 2 \<le> length (version_texts (''GET / HTTP/x.y'' @ [CR, LF, CR, LF]))
   \<and> stoi (version_texts (''GET / HTTP/x.y'' @ [CR, LF, CR, LF]) ! 0) = Inl invalid_argument
   \<and> parse_request (''GET / HTTP/x.y'' @ [CR, LF, CR, LF]) = Inl invalid_argument
   \<and> is_digit CHR ''1'' \<and> \<not> is_digit CHR ''x'' \<and> stoi ''1x'' = Inr (digit_value CHR ''1'')"
proof -
  note t = parse_request_throws
  have h1: "length (request_parts (''BADLINE'' @ [CR, LF, CR, LF])) < 3"
    by code_simp
  have h2: "3 \<le> length (request_parts (''GET / H'' @ [CR, LF, CR, LF]))
      \<and> length (request_parts (''GET / H'' @ [CR, LF, CR, LF]) ! 2) < 5"
    by code_simp
  have h3: "3 \<le> length (request_parts (''GET / HTTP/x.y'' @ [CR, LF, CR, LF]))
      \<and> 5 \<le> length (request_parts (''GET / HTTP/x.y'' @ [CR, LF, CR, LF]) ! 2)
      \<and> 2 \<le> length (version_texts (''GET / HTTP/x.y'' @ [CR, LF, CR, LF]))"
    by code_simp
  have s3: "stoi (version_texts (''GET / HTTP/x.y'' @ [CR, LF, CR, LF]) ! 0) = Inl invalid_argument"
    by code_simp
  have h4: "is_digit CHR ''1'' \<and> \<not> is_digit CHR ''x''"
    by (simp add: is_digit_def)
  have c1: "\<exists>r. parse_request (''BADLINE'' @ [CR, LF, CR, LF]) = Inr r"
    using t [THEN conjunct1] h1 by (rule mp)
  have c2: "parse_request (''GET / H'' @ [CR, LF, CR, LF]) = Inl out_of_range"
    using t [THEN conjunct2, THEN conjunct1] h2 by (rule mp)
  have "(parse_request (''GET / HTTP/x.y'' @ [CR, LF, CR, LF]) = Inl invalid_argument)
      = (stoi (version_texts (''GET / HTTP/x.y'' @ [CR, LF, CR, LF]) ! 0) = Inl invalid_argument
         \<or> (\<exists>mj. stoi (version_texts (''GET / HTTP/x.y'' @ [CR, LF, CR, LF]) ! 0) = Inr mj)
           \<and> stoi (version_texts (''GET / HTTP/x.y'' @ [CR, LF, CR, LF]) ! 1) = Inl invalid_argument)"
    using t [THEN conjunct2, THEN conjunct2, THEN conjunct1] h3 by (rule mp)
  with s3 have c3: "parse_request (''GET / HTTP/x.y'' @ [CR, LF, CR, LF]) = Inl invalid_argument"
    by (simp only: simp_thms)
  have c4: "stoi ''1x'' = Inr (digit_value CHR ''1'')"
    using t [THEN conjunct2, THEN conjunct2, THEN conjunct2, THEN conjunct2, THEN conjunct2] h4
    by (rule mp)
  show ?thesis using h1 h2 h3 s3 h4 c1 c2 c3 c4 by (simp only: simp_thms)
qed

text \<open>
  Claim C1 as stated fails: the request line below has three tokens and its major
  version text, 1x, is no valid integer, yet the parser returns version 1.1.
\<close>

theorem parse_request_lenient_counterexample:
  "3 \<le> length (request_parts (''GET / HTTP/1x.1y'' @ [CR, LF, CR, LF]))
   \<and> version_texts (''GET / HTTP/1x.1y'' @ [CR, LF, CR, LF]) ! 0 = ''1x''
   \<and> \<not> spec_valid_integer ''1x''
   \<and> parse_request (''GET / HTTP/1x.1y'' @ [CR, LF, CR, LF])
       = Inr \<lparr>method_of = Assigned GET, uri = ''/'',
               Request.version = Assigned \<lparr>major = 1, minor = 1\<rparr>,
               Request.headers = [], Request.body = []\<rparr>"
  by code_simp

text \<open>
  Claim C2 at the buffer BADLINE CR LF CR LF: the parser returns, the target, the
  headers and the body are empty, and the method and the version were never assigned:
  they are indeterminate, not zero.
\<close>

theorem parse_request_badline:
  "parse_request (''BADLINE'' @ [CR, LF, CR, LF])
     = Inr \<lparr>method_of = Indeterminate, uri = [], Request.version = Indeterminate,
             Request.headers = [], Request.body = []\<rparr>"
  by code_simp

text \<open>
  The request line below has a version text with no minor part: the parser reads
  \<^verbatim>\<open>version_parts[1]\<close> of a vector of one element.
\<close>

lemma parse_request_missing_minor:
  "parse_request (''GET / HTTP/1'' @ [CR, LF, CR, LF]) = Inl undefined_behaviour"
  by code_simp


end
